theory Spec2Isabelle
  imports Main
begin

section \<open>The ServerSearch component (components/server/server-search.tsx)\<close>

subsection \<open>Input data: ServerSearchProps\<close>

text \<open>
  The props interface of the component:
  \<^verbatim>\<open>
  data: { label: string; type: "channel" | "member";
          data: { icon: React.ReactNode; name: string; id: string }[] | undefined }[]
  \<close>
  An icon is a renderable value the caller made; the component only puts it into a
  row, so its type is a parameter \<open>'i\<close>. The field \<open>id\<close> is written \<open>id'\<close>, the
  field \<open>type\<close> is written \<open>type'\<close>.
\<close>

datatype group_type = Channel | Member

record 'i item =
  icon :: 'i
  name :: string
  id' :: string

record 'i group =
  label :: string
  type' :: group_type
  data :: "'i item list option"

subsection \<open>Output: the element tree\<close>

text \<open>
  The two functions the component creates: the arrow function \<open>() => setOpen(b)\<close>
  (the source has \<open>b = true\<close>, on the button) and the state setter \<open>setOpen\<close> itself
  (handed to the dialog as \<open>onOpenChange\<close>).
\<close>

datatype callback = SetOpenConst bool | SetOpen

text \<open>
  A JSX attribute is a name with a value. The \<open>key\<close> attribute is kept apart, as React
  keeps it apart from the props.
\<close>

datatype propval = PStr string | PBool bool | PFun callback

type_synonym props = "(string \<times> propval) list"

text \<open>
  What a component returns: \<open>null\<close>, a text, a value of the caller (an icon), an
  element with its tag, key, attributes and children, a fragment \<open><>...</>\<close>, or the
  array an expression such as \<open>xs.map(...)\<close> leaves in a child position.
\<close>

datatype 'i node =
    Null
  | Text string
  | Handle 'i
  | Element string "string option" props "'i node list"
  | Fragment "'i node list"
  | Array "'i node list"

subsection \<open>The component\<close>

text \<open>Lines 54 to 61: one \<open>CommandItem\<close> per item, keyed by the item's id.\<close>

definition render_item :: "'i item \<Rightarrow> 'i node" where
  "render_item it =
     Element ''CommandItem'' (Some (id' it)) []
       [Handle (icon it), Element ''span'' None [] [Text (name it)]]"

text \<open>
  Lines 50 to 64, the body of the outer \<open>map\<close>. \<open>!data?.length\<close> is true when
  \<open>data\<close> is \<open>undefined\<close> (then \<open>data?.length\<close> is \<open>undefined\<close>) and when its length is 0.
\<close>

definition render_group :: "'i group \<Rightarrow> 'i node" where
  "render_group g =
     (case data g of
        None \<Rightarrow> Null
      | Some xs \<Rightarrow>
          if length xs = 0 then Null
          else Element ''CommandGroup'' (Some (label g)) [(''heading'', PStr (label g))]
                 [Array (map render_item xs)])"

text \<open>The glyph U+2318 of line 42, as its three UTF-8 bytes.\<close>

definition cmd_glyph :: string where
  "cmd_glyph = [CHR 0xE2, CHR 0x8C, CHR 0x98]"

text \<open>Lines 33 to 44: the trigger.\<close>

definition trigger :: "'i node" where
  "trigger =
     Element ''button'' None
       [(''onClick'', PFun (SetOpenConst True)),
        (''className'', PStr ''group px-2 py-2 rounded-md flex items-center gap-x-2 hover:bg-zinc-700/10 dark:hover:bg-zinc-700/50 transition'')]
       [Element ''SearchIcon'' None
          [(''className'', PStr ''w-4 h-4 text-zinc-500 dark:text-zinc-400'')] [],
        Element ''p'' None
          [(''className'', PStr ''font-semibold dark:text-zinc-400 group-hover:text-zinc-600 dark:group-hover:text-zinc-300 transition'')]
          [Text ''Search''],
        Element ''kbd'' None
          [(''className'', PStr ''pointer-event-none inline-flex h-5 select-none items-center gap-1 rounded border bg-muted px-1.5 font-mono text-[10px] font-medium text-muted-foreground ml-auto'')]
          [Element ''span'' None [(''className'', PStr ''text-xs'')] [Text cmd_glyph],
           Text ''K'']]"

text \<open>Lines 45 to 65: the dialog, given the input and the current flag.\<close>

definition dialog :: "'i group list \<Rightarrow> bool \<Rightarrow> 'i node" where
  "dialog groups opn =
     Element ''CommandDialog'' None
       [(''open'', PBool opn), (''onOpenChange'', PFun SetOpen)]
       [Element ''CommandInput'' None
          [(''placeholder'', PStr ''Search all channels and members'')] [],
        Element ''CommandList'' None []
          [Element ''CommandEmpty'' None [] [Text ''No Result found'']],
        Array (map render_group groups)]"

text \<open>
  Lines 28 to 68. \<open>useState(false)\<close> gives the flag its first value; a render reads the
  current flag \<open>opn\<close> (the source's \<open>open\<close>) and returns the fragment of lines 32 to 66.
\<close>

definition init_open :: bool where
  "init_open = False"

definition ServerSearch :: "'i group list \<Rightarrow> bool \<Rightarrow> 'i node" where
  "ServerSearch groups opn = Fragment [trigger, dialog groups opn]"

subsection \<open>Reading the element tree\<close>

text \<open>
  What React makes of a child position: \<open>null\<close> gives nothing, an array or a fragment
  gives its members in order, anything else is one child.
\<close>

fun flat :: "'i node \<Rightarrow> 'i node list" where
  "flat Null = []"
| "flat (Array ns) = concat (map flat ns)"
| "flat (Fragment ns) = concat (map flat ns)"
| "flat (Text s) = [Text s]"
| "flat (Handle h) = [Handle h]"
| "flat (Element t k ps cs) = [Element t k ps cs]"

fun kids :: "'i node \<Rightarrow> 'i node list" where
  "kids (Element t k ps cs) = concat (map flat cs)"
| "kids (Fragment cs) = concat (map flat cs)"
| "kids (Array cs) = concat (map flat cs)"
| "kids Null = []"
| "kids (Text s) = []"
| "kids (Handle h) = []"

fun tag_of :: "'i node \<Rightarrow> string option" where
  "tag_of (Element t k ps cs) = Some t"
| "tag_of Null = None"
| "tag_of (Text s) = None"
| "tag_of (Handle h) = None"
| "tag_of (Fragment cs) = None"
| "tag_of (Array cs) = None"

fun key_of :: "'i node \<Rightarrow> string option" where
  "key_of (Element t k ps cs) = k"
| "key_of Null = None"
| "key_of (Text s) = None"
| "key_of (Handle h) = None"
| "key_of (Fragment cs) = None"
| "key_of (Array cs) = None"

fun props_of :: "'i node \<Rightarrow> props" where
  "props_of (Element t k ps cs) = ps"
| "props_of Null = []"
| "props_of (Text s) = []"
| "props_of (Handle h) = []"
| "props_of (Fragment cs) = []"
| "props_of (Array cs) = []"

text \<open>The text a node displays: its text leaves, left to right.\<close>

fun text_of :: "'i node \<Rightarrow> string" where
  "text_of (Text s) = s"
| "text_of (Element t k ps cs) = concat (map text_of cs)"
| "text_of (Fragment cs) = concat (map text_of cs)"
| "text_of (Array cs) = concat (map text_of cs)"
| "text_of Null = []"
| "text_of (Handle h) = []"

text \<open>Every element of a tree, parents before children, left to right.\<close>

fun elements :: "'i node \<Rightarrow> 'i node list" where
  "elements (Element t k ps cs) = Element t k ps cs # concat (map elements cs)"
| "elements (Fragment cs) = concat (map elements cs)"
| "elements (Array cs) = concat (map elements cs)"
| "elements Null = []"
| "elements (Text s) = []"
| "elements (Handle h) = []"

definition tagged :: "string \<Rightarrow> 'i node list \<Rightarrow> 'i node list" where
  "tagged t ns = filter (\<lambda>n. tag_of n = Some t) ns"

text \<open>
  The parts of the output the specification speaks of: the children of the dialog, the
  groups among them, the rows of a group, the heading of a group, and the results area
  (the children of the \<open>CommandList\<close>).
\<close>

definition dialogs :: "'i node \<Rightarrow> 'i node list" where
  "dialogs tree = tagged ''CommandDialog'' (kids tree)"

definition dialog_children :: "'i node \<Rightarrow> 'i node list" where
  "dialog_children tree = concat (map kids (dialogs tree))"

definition rendered_groups :: "'i node \<Rightarrow> 'i node list" where
  "rendered_groups tree = tagged ''CommandGroup'' (dialog_children tree)"

definition rows :: "'i node \<Rightarrow> 'i node list" where
  "rows g = tagged ''CommandItem'' (kids g)"

definition heading_of :: "'i node \<Rightarrow> propval option" where
  "heading_of g = map_of (props_of g) ''heading''"

definition results_area :: "'i node \<Rightarrow> 'i node list" where
  "results_area tree = concat (map kids (tagged ''CommandList'' (dialog_children tree)))"

definition row_keys :: "'i node \<Rightarrow> string option list" where
  "row_keys tree = map key_of (concat (map rows (rendered_groups tree)))"

text \<open>The items of a group, and whether it has any.\<close>

definition items_of :: "'i group \<Rightarrow> 'i item list" where
  "items_of g = (case data g of None \<Rightarrow> [] | Some xs \<Rightarrow> xs)"

definition has_items :: "'i group \<Rightarrow> bool" where
  "has_items g = (case data g of None \<Rightarrow> False | Some xs \<Rightarrow> xs \<noteq> [])"

subsection \<open>The open flag and the events that reach the component\<close>

text \<open>
  A mounted component: the props it was given and the one piece of state it holds, the
  flag of \<open>useState(false)\<close>. A render reads both and returns the element tree.
\<close>

record 'i comp =
  props_data :: "'i group list"
  flag :: bool

definition mount :: "'i group list \<Rightarrow> 'i comp" where
  "mount gs = \<lparr>props_data = gs, flag = init_open\<rparr>"

definition render :: "'i comp \<Rightarrow> 'i node" where
  "render c = ServerSearch (props_data c) (flag c)"

text \<open>
  What a callback is called with: a DOM event object, the boolean a dialog reports, or
  the string a list reports for a selected row. \<open>setOpen(v)\<close> stores \<open>v\<close>, and the
  dialog reads the flag for its truth value (\<open>open={open}\<close>), so the flag after
  \<open>setOpen(v)\<close> is the truth value of \<open>v\<close>.
\<close>

datatype payload = EventObject | BoolValue bool | StrValue string

fun truthy :: "payload \<Rightarrow> bool" where
  "truthy EventObject = True"
| "truthy (BoolValue b) = b"
| "truthy (StrValue s) = (s \<noteq> [])"

fun invoke :: "callback \<Rightarrow> payload \<Rightarrow> 'i comp \<Rightarrow> 'i comp" where
  "invoke (SetOpenConst b) v c = c\<lparr>flag := b\<rparr>"
| "invoke SetOpen v c = c\<lparr>flag := truthy v\<rparr>"

definition run :: "callback list \<Rightarrow> payload \<Rightarrow> 'i comp \<Rightarrow> 'i comp" where
  "run hs v c = fold (\<lambda>h. invoke h v) hs c"

text \<open>The function-valued attributes of an attribute list, with their names.\<close>

fun fun_attrs :: "props \<Rightarrow> (string \<times> callback) list" where
  "fun_attrs [] = []"
| "fun_attrs ((a, PFun h) # ps) = (a, h) # fun_attrs ps"
| "fun_attrs ((a, PStr v) # ps) = fun_attrs ps"
| "fun_attrs ((a, PBool v) # ps) = fun_attrs ps"

definition callbacks :: "string list \<Rightarrow> 'i node \<Rightarrow> callback list" where
  "callbacks names n =
     map snd (filter (\<lambda>(a, h). a \<in> set names) (fun_attrs (props_of n)))"

text \<open>Every callback a tree registers: the element's tag, the attribute, the function.\<close>

definition all_callbacks :: "'i node \<Rightarrow> (string option \<times> string \<times> callback) list" where
  "all_callbacks tree =
     concat (map (\<lambda>e. map (\<lambda>(a, h). (tag_of e, a, h)) (fun_attrs (props_of e)))
       (elements tree))"

text \<open>
  A target in the tree is a path of child indices from the root. \<open>locate\<close> returns the
  nodes from the root down to the target, or \<open>None\<close> when there is no such node.
\<close>

fun children :: "'i node \<Rightarrow> 'i node list" where
  "children (Element t k ps cs) = cs"
| "children (Fragment cs) = cs"
| "children (Array cs) = cs"
| "children Null = []"
| "children (Text s) = []"
| "children (Handle h) = []"

fun locate :: "'i node \<Rightarrow> nat list \<Rightarrow> 'i node list option" where
  "locate n [] = Some [n]"
| "locate n (i # p) =
     (if i < length (children n)
      then map_option (\<lambda>chain. n # chain) (locate (children n ! i) p)
      else None)"

text \<open>
  A DOM event runs the handlers of its target and then of each ancestor, up to the
  root.
\<close>

definition bubbling :: "string list \<Rightarrow> 'i node list \<Rightarrow> callback list" where
  "bubbling names chain = concat (map (callbacks names) (rev chain))"

text \<open>
  What can happen to the component: a click or a key event at a target, the selection
  of a target in the command list, and the dismissal of the dialog (escape, a click
  outside). A key press that the browser turns into a click of the focused button is
  a \<open>Click\<close>.
\<close>

datatype action = Click "nat list" | Key "nat list" string | Select "nat list" | Dismiss

text \<open>
  Modelled from the spec: the dialog primitive \<open>CommandDialog\<close> of \<open>../ui/command\<close> is
  not among the sources. The specification says that a dismissal is the dialog
  primitive's business and takes the component from Open to Closed: the primitive
  calls its \<open>onOpenChange\<close> attribute with \<open>false\<close>.
\<close>

definition dismiss_value :: bool where
  "dismiss_value = False"

definition step :: "'i comp \<Rightarrow> action \<Rightarrow> 'i comp" where
  "step c a =
     (case a of
        Click p \<Rightarrow>
          (case locate (render c) p of
             None \<Rightarrow> c
           | Some chain \<Rightarrow> run (bubbling [''onClick''] chain) EventObject c)
      | Key p k \<Rightarrow>
          (case locate (render c) p of
             None \<Rightarrow> c
           | Some chain \<Rightarrow>
               run (bubbling [''onKeyDown'', ''onKeyUp'', ''onKeyPress''] chain) EventObject c)
      | Select p \<Rightarrow>
          (case locate (render c) p of
             None \<Rightarrow> c
           | Some chain \<Rightarrow>
               run (callbacks [''onSelect''] (last chain)) (StrValue (text_of (last chain))) c)
      | Dismiss \<Rightarrow>
          run (concat (map (callbacks [''onOpenChange'']) (dialogs (render c))))
            (BoolValue dismiss_value) c)"

subsection \<open>Run-time values\<close>

text \<open>
  TypeScript's types are gone at run time: where the interface asks for a value, a
  caller can still pass \<open>undefined\<close>. The run-time view of the props makes every position
  optional (\<open>None\<close> is \<open>undefined\<close>), and the component is written out once more with
  what JavaScript does at each access: reading a property of \<open>undefined\<close>, calling a
  method of it or destructuring it throws a \<open>TypeError\<close>; \<open>x?.p\<close> gives \<open>undefined\<close>
  instead.
\<close>

datatype error = TypeError

record 'i item_rt =
  icon_rt :: "'i option"
  name_rt :: "string option"
  id_rt :: "string option"

record 'i group_rt =
  label_rt :: "string option"
  type_rt :: "group_type option"
  data_rt :: "'i item_rt option list option"

text \<open>\<open>Array.prototype.map\<close>: the callback runs on each member in order; a throw ends it.\<close>

fun array_map :: "('a \<Rightarrow> error + 'b) \<Rightarrow> 'a list \<Rightarrow> error + 'b list" where
  "array_map f [] = Inr []"
| "array_map f (x # xs) =
     (case f x of
        Inl e \<Rightarrow> Inl e
      | Inr y \<Rightarrow> (case array_map f xs of Inl e \<Rightarrow> Inl e | Inr ys \<Rightarrow> Inr (y # ys)))"

text \<open>\<open>xs.map(f)\<close>, \<open>xs?.map(f)\<close>, \<open>xs?.length\<close> and \<open>!v\<close> for a length \<open>v\<close>.\<close>

definition member_map :: "'a list option \<Rightarrow> ('a \<Rightarrow> error + 'b) \<Rightarrow> error + 'b list" where
  "member_map xs f = (case xs of None \<Rightarrow> Inl TypeError | Some ys \<Rightarrow> array_map f ys)"

definition optional_map ::
  "'a list option \<Rightarrow> ('a \<Rightarrow> error + 'b) \<Rightarrow> error + 'b list option" where
  "optional_map xs f =
     (case xs of
        None \<Rightarrow> Inr None
      | Some ys \<Rightarrow> (case array_map f ys of Inl e \<Rightarrow> Inl e | Inr zs \<Rightarrow> Inr (Some zs)))"

definition optional_length :: "'a list option \<Rightarrow> nat option" where
  "optional_length xs = map_option length xs"

definition js_not :: "nat option \<Rightarrow> bool" where
  "js_not v = (case v of None \<Rightarrow> True | Some n \<Rightarrow> n = 0)"

text \<open>
  A value in a child position: \<open>undefined\<close> renders nothing, like \<open>null\<close>. A \<open>key\<close> that is
  \<open>undefined\<close> is no key; an attribute that is \<open>undefined\<close> is left out.
\<close>

definition handle_child :: "'i option \<Rightarrow> 'i node" where
  "handle_child v = (case v of None \<Rightarrow> Null | Some i \<Rightarrow> Handle i)"

definition text_child :: "string option \<Rightarrow> 'i node" where
  "text_child v = (case v of None \<Rightarrow> Null | Some s \<Rightarrow> Text s)"

definition str_attr :: "string \<Rightarrow> string option \<Rightarrow> props" where
  "str_attr a v = (case v of None \<Rightarrow> [] | Some s \<Rightarrow> [(a, PStr s)])"

text \<open>Lines 54 to 61; the parameter \<open>{ id, icon, name }\<close> destructures the item.\<close>

definition render_item_rt :: "'i item_rt option \<Rightarrow> error + 'i node" where
  "render_item_rt v =
     (case v of
        None \<Rightarrow> Inl TypeError
      | Some it \<Rightarrow>
          Inr (Element ''CommandItem'' (id_rt it) []
                 [handle_child (icon_rt it),
                  Element ''span'' None [] [text_child (name_rt it)]]))"

text \<open>Lines 50 to 64; the parameter \<open>{ label, type, data }\<close> destructures the group.\<close>

definition render_group_rt :: "'i group_rt option \<Rightarrow> error + 'i node" where
  "render_group_rt v =
     (case v of
        None \<Rightarrow> Inl TypeError
      | Some g \<Rightarrow>
          if js_not (optional_length (data_rt g)) then Inr Null
          else
            (case optional_map (data_rt g) render_item_rt of
               Inl e \<Rightarrow> Inl e
             | Inr rs \<Rightarrow>
                 Inr (Element ''CommandGroup'' (label_rt g) (str_attr ''heading'' (label_rt g))
                        [case rs of None \<Rightarrow> Null | Some ns \<Rightarrow> Array ns])))"

text \<open>Lines 28 to 68, on the run-time value of \<open>props.data\<close>.\<close>

definition ServerSearch_rt :: "'i group_rt option list option \<Rightarrow> bool \<Rightarrow> error + 'i node" where
  "ServerSearch_rt groups opn =
     (case member_map groups render_group_rt of
        Inl e \<Rightarrow> Inl e
      | Inr ns \<Rightarrow>
          Inr (Fragment
                 [trigger,
                  Element ''CommandDialog'' None
                    [(''open'', PBool opn), (''onOpenChange'', PFun SetOpen)]
                    [Element ''CommandInput'' None
                       [(''placeholder'', PStr ''Search all channels and members'')] [],
                     Element ''CommandList'' None []
                       [Element ''CommandEmpty'' None [] [Text ''No Result found'']],
                     Array ns]]))"

text \<open>
  The run-time value of a well-typed input, and what it is for a run-time value to
  conform to \<open>ServerSearchProps\<close>: nothing is \<open>undefined\<close> but, possibly, the item
  sequence of a group (and an icon, as \<open>React.ReactNode\<close> admits \<open>undefined\<close>).
\<close>

definition item_rt_of :: "'i item \<Rightarrow> 'i item_rt" where
  "item_rt_of it = \<lparr>icon_rt = Some (icon it), name_rt = Some (name it), id_rt = Some (id' it)\<rparr>"

definition group_rt_of :: "'i group \<Rightarrow> 'i group_rt" where
  "group_rt_of g =
     \<lparr>label_rt = Some (label g), type_rt = Some (type' g),
      data_rt = map_option (map (\<lambda>it. Some (item_rt_of it))) (data g)\<rparr>"

definition props_rt_of :: "'i group list \<Rightarrow> 'i group_rt option list option" where
  "props_rt_of gs = Some (map (\<lambda>g. Some (group_rt_of g)) gs)"

definition wf_item :: "'i item_rt option \<Rightarrow> bool" where
  "wf_item v = (case v of None \<Rightarrow> False | Some it \<Rightarrow> name_rt it \<noteq> None \<and> id_rt it \<noteq> None)"

definition wf_group :: "'i group_rt option \<Rightarrow> bool" where
  "wf_group v =
     (case v of
        None \<Rightarrow> False
      | Some g \<Rightarrow>
          label_rt g \<noteq> None \<and> type_rt g \<noteq> None
          \<and> (case data_rt g of None \<Rightarrow> True | Some xs \<Rightarrow> list_all wf_item xs))"

definition wf_props :: "'i group_rt option list option \<Rightarrow> bool" where
  "wf_props v = (case v of None \<Rightarrow> False | Some gs \<Rightarrow> list_all wf_group gs)"

subsection \<open>The input as objects in a store\<close>

text \<open>
  In JavaScript the input is not a value but a graph of objects: \<open>props.data\<close> is an
  array of references to group objects, the \<open>data\<close> of a group is \<open>undefined\<close> or a
  reference to an array of references to item objects. A store is the list of the
  objects that exist, an address is an index into it, and a new object is put at the
  end. The render is written out on the store, each access of the source a read of
  the store and each \<open>map\<close> an allocation: \<open>Array.prototype.map\<close> returns a new array
  and leaves its receiver as it is. The result is \<open>None\<close> when a reference does not
  lead to an object of the kind the access expects.
\<close>

type_synonym addr = nat

datatype 'i cell =
    ItemCell "'i item"
  | GroupCell string group_type "addr option"
  | RefArray "addr list"
  | NodeArray "'i node list"

type_synonym 'i store = "'i cell list"

definition lookup :: "'i store \<Rightarrow> addr \<Rightarrow> 'i cell option" where
  "lookup h a = (if a < length h then Some (h ! a) else None)"

fun as_item :: "'i cell \<Rightarrow> 'i item option" where
  "as_item (ItemCell it) = Some it"
| "as_item (GroupCell l t d) = None"
| "as_item (RefArray rs) = None"
| "as_item (NodeArray ns) = None"

fun as_group :: "'i cell \<Rightarrow> (string \<times> group_type \<times> addr option) option" where
  "as_group (GroupCell l t d) = Some (l, t, d)"
| "as_group (ItemCell it) = None"
| "as_group (RefArray rs) = None"
| "as_group (NodeArray ns) = None"

fun as_refs :: "'i cell \<Rightarrow> addr list option" where
  "as_refs (RefArray rs) = Some rs"
| "as_refs (ItemCell it) = None"
| "as_refs (GroupCell l t d) = None"
| "as_refs (NodeArray ns) = None"

definition read_item :: "'i store \<Rightarrow> addr \<Rightarrow> 'i item option" where
  "read_item h a = (case lookup h a of None \<Rightarrow> None | Some c \<Rightarrow> as_item c)"

definition read_group :: "'i store \<Rightarrow> addr \<Rightarrow> (string \<times> group_type \<times> addr option) option" where
  "read_group h a = (case lookup h a of None \<Rightarrow> None | Some c \<Rightarrow> as_group c)"

definition read_refs :: "'i store \<Rightarrow> addr \<Rightarrow> addr list option" where
  "read_refs h a = (case lookup h a of None \<Rightarrow> None | Some c \<Rightarrow> as_refs c)"

text \<open>
  \<open>xs.map(f)\<close> on the store: the callback runs on each member in order, each call on
  the store the call before it left; the array of the results is a new object.
\<close>

fun map_st ::
  "('i store \<Rightarrow> addr \<Rightarrow> ('i node \<times> 'i store) option) \<Rightarrow> 'i store \<Rightarrow> addr list \<Rightarrow>
   ('i node list \<times> 'i store) option" where
  "map_st f h [] = Some ([], h)"
| "map_st f h (a # rs) =
     (case f h a of
        None \<Rightarrow> None
      | Some (n, h1) \<Rightarrow>
          (case map_st f h1 rs of None \<Rightarrow> None | Some (ns, h2) \<Rightarrow> Some (n # ns, h2)))"

definition array_map_st ::
  "('i store \<Rightarrow> addr \<Rightarrow> ('i node \<times> 'i store) option) \<Rightarrow> 'i store \<Rightarrow> addr \<Rightarrow>
   ('i node list \<times> 'i store) option" where
  "array_map_st f h r =
     (case read_refs h r of
        None \<Rightarrow> None
      | Some rs \<Rightarrow>
          (case map_st f h rs of
             None \<Rightarrow> None
           | Some (ns, h1) \<Rightarrow> Some (ns, h1 @ [NodeArray ns])))"

text \<open>Lines 54 to 61: the item object is read, nothing is written.\<close>

definition render_item_st :: "'i store \<Rightarrow> addr \<Rightarrow> ('i node \<times> 'i store) option" where
  "render_item_st h a =
     (case read_item h a of None \<Rightarrow> None | Some it \<Rightarrow> Some (render_item it, h))"

text \<open>Lines 50 to 64: the group object and the length of its item array are read.\<close>

definition render_group_st :: "'i store \<Rightarrow> addr \<Rightarrow> ('i node \<times> 'i store) option" where
  "render_group_st h a =
     (case read_group h a of
        None \<Rightarrow> None
      | Some (l, t, d) \<Rightarrow>
          (case d of
             None \<Rightarrow> Some (Null, h)
           | Some r \<Rightarrow>
               (case read_refs h r of
                  None \<Rightarrow> None
                | Some rs \<Rightarrow>
                    if length rs = 0 then Some (Null, h)
                    else
                      (case array_map_st render_item_st h r of
                         None \<Rightarrow> None
                       | Some (ns, h1) \<Rightarrow>
                           Some (Element ''CommandGroup'' (Some l) [(''heading'', PStr l)]
                                   [Array ns], h1)))))"

text \<open>Lines 28 to 68, on the store and the address of \<open>props.data\<close>.\<close>

definition ServerSearch_st :: "'i store \<Rightarrow> addr \<Rightarrow> bool \<Rightarrow> ('i node \<times> 'i store) option" where
  "ServerSearch_st h r opn =
     (case array_map_st render_group_st h r of
        None \<Rightarrow> None
      | Some (ns, h1) \<Rightarrow>
          Some (Fragment
                  [trigger,
                   Element ''CommandDialog'' None
                     [(''open'', PBool opn), (''onOpenChange'', PFun SetOpen)]
                     [Element ''CommandInput'' None
                        [(''placeholder'', PStr ''Search all channels and members'')] [],
                      Element ''CommandList'' None []
                        [Element ''CommandEmpty'' None [] [Text ''No Result found'']],
                      Array ns]], h1))"

text \<open>
  The input a store holds at an address, read field by field: the value of type
  \<open>ServerSearchProps\<close> that the object graph stands for.
\<close>

definition items_at :: "'i store \<Rightarrow> addr \<Rightarrow> 'i item list option" where
  "items_at h r =
     (case read_refs h r of None \<Rightarrow> None | Some rs \<Rightarrow> those (map (read_item h) rs))"

definition group_at :: "'i store \<Rightarrow> addr \<Rightarrow> 'i group option" where
  "group_at h a =
     (case read_group h a of
        None \<Rightarrow> None
      | Some (l, t, d) \<Rightarrow>
          (case d of
             None \<Rightarrow> Some \<lparr>label = l, type' = t, data = None\<rparr>
           | Some r \<Rightarrow>
               (case items_at h r of
                  None \<Rightarrow> None
                | Some xs \<Rightarrow> Some \<lparr>label = l, type' = t, data = Some xs\<rparr>)))"

definition groups_at :: "'i store \<Rightarrow> addr \<Rightarrow> 'i group list option" where
  "groups_at h r =
     (case read_refs h r of None \<Rightarrow> None | Some rs \<Rightarrow> those (map (group_at h) rs))"

section \<open>Properties\<close>

subsection \<open>The shape of the output\<close>

lemma tagged_Nil: "tagged t [] = []"
  by (simp add: tagged_def)

lemma tagged_Cons:
  "tagged t (n # ns) = (if tag_of n = Some t then n # tagged t ns else tagged t ns)"
  by (simp add: tagged_def)

lemma tagged_append: "tagged t (xs @ ys) = tagged t xs @ tagged t ys"
  by (simp add: tagged_def)

lemma flat_render_group:
  "flat (render_group g) = (if has_items g then [render_group g] else [])"
  by (cases "data g") (simp_all add: render_group_def has_items_def)

lemma flat_groups:
  "concat (map (flat \<circ> render_group) gs) = map render_group (filter has_items gs)"
  by (induction gs) (simp_all add: flat_render_group)

lemma tag_render_group:
  "has_items g \<Longrightarrow> tag_of (render_group g) = Some ''CommandGroup''"
  by (cases "data g") (simp_all add: render_group_def has_items_def)

lemma tagged_groups:
  "tagged ''CommandGroup'' (map render_group (filter has_items gs)) =
     map render_group (filter has_items gs)"
  by (induction gs) (simp_all add: tagged_Nil tagged_Cons tag_render_group)

lemma tagged_list_groups:
  "tagged ''CommandList'' (map render_group (filter has_items gs)) = []"
  by (induction gs) (simp_all add: tagged_Nil tagged_Cons tag_render_group)

lemma dialogs_ServerSearch:
  "dialogs (ServerSearch gs opn) =
     [Element ''CommandDialog'' None
        [(''open'', PBool opn), (''onOpenChange'', PFun SetOpen)]
        [Element ''CommandInput'' None
           [(''placeholder'', PStr ''Search all channels and members'')] [],
         Element ''CommandList'' None []
           [Element ''CommandEmpty'' None [] [Text ''No Result found'']],
         Array (map render_group gs)]]"
  by (simp add: dialogs_def ServerSearch_def dialog_def trigger_def tagged_def)

lemma dialog_children_ServerSearch:
  "dialog_children (ServerSearch gs opn) =
     [Element ''CommandInput'' None
        [(''placeholder'', PStr ''Search all channels and members'')] [],
      Element ''CommandList'' None []
        [Element ''CommandEmpty'' None [] [Text ''No Result found'']]]
     @ map render_group (filter has_items gs)"
  by (simp add: dialog_children_def dialogs_ServerSearch flat_groups)

lemma rendered_groups_ServerSearch:
  "rendered_groups (ServerSearch gs opn) = map render_group (filter has_items gs)"
  by (simp add: rendered_groups_def dialog_children_ServerSearch tagged_groups
      tagged_Nil tagged_Cons)

lemma flat_items: "concat (map (flat \<circ> render_item) xs) = map render_item xs"
  by (induction xs) (simp_all add: render_item_def)

lemma tagged_items: "tagged ''CommandItem'' (map render_item xs) = map render_item xs"
  by (induction xs) (simp_all add: tagged_Nil tagged_Cons render_item_def)

lemma rows_render_group:
  "rows (render_group g) = map render_item (items_of g)"
  by (cases "data g")
    (simp_all add: rows_def render_group_def items_of_def flat_items tagged_items
       tagged_Nil)

lemma heading_render_group:
  "has_items g \<Longrightarrow> heading_of (render_group g) = Some (PStr (label g))"
  by (cases "data g") (simp_all add: heading_of_def render_group_def has_items_def)

lemma key_render_group:
  "has_items g \<Longrightarrow> key_of (render_group g) = Some (label g)"
  by (cases "data g") (simp_all add: render_group_def has_items_def)

lemma key_render_item: "key_of (render_item it) = Some (id' it)"
  by (simp add: render_item_def)

lemma text_render_item: "text_of (render_item it) = name it"
  by (simp add: render_item_def)

lemma items_of_no_items: "\<not> has_items g \<Longrightarrow> items_of g = []"
  by (cases "data g") (simp_all add: has_items_def items_of_def)

lemma items_filter_has_items:
  "concat (map items_of (filter has_items gs)) = concat (map items_of gs)"
  by (induction gs) (simp_all add: items_of_no_items)

lemma rows_of_groups:
  "concat (map (rows \<circ> render_group) gs) = map render_item (concat (map items_of gs))"
  by (induction gs) (simp_all add: rows_render_group)

lemma row_keys_ServerSearch:
  "row_keys (ServerSearch gs opn) = map (\<lambda>it. Some (id' it)) (concat (map items_of gs))"
proof -
  have "row_keys (ServerSearch gs opn) =
      map key_of (map render_item (concat (map items_of (filter has_items gs))))"
    by (simp add: row_keys_def rendered_groups_ServerSearch rows_of_groups)
  then show ?thesis
    by (simp add: items_filter_has_items comp_def key_render_item)
qed

lemma no_items_no_groups:
  "concat (map items_of gs) = [] \<Longrightarrow> filter has_items gs = []"
proof (induction gs)
  case Nil
  then show ?case by simp
next
  case (Cons g gs)
  then have "items_of g = []" by simp
  then have "\<not> has_items g"
    by (cases "data g") (simp_all add: has_items_def items_of_def)
  with Cons show ?case by simp
qed

lemma absent_or_empty_no_items:
  "data g = None \<or> data g = Some [] \<Longrightarrow> \<not> has_items g"
  by (auto simp: has_items_def)

subsection \<open>Groups without items\<close>

text \<open>
  C1. A group whose item sequence is absent or empty contributes nothing to the
  output: wherever it stands in the input, the groups rendered (each with its heading
  and its rows) and all the children of the dialog are those of the input without it.
  In particular, of two groups whose second has no items, only the first is rendered.
\<close>

theorem empty_group_not_rendered:
  assumes "data g = None \<or> data g = Some []"
  shows "flat (render_group g) = []
    \<and> rendered_groups (ServerSearch (xs @ g # ys) opn) =
        rendered_groups (ServerSearch (xs @ ys) opn)
    \<and> dialog_children (ServerSearch (xs @ g # ys) opn) =
        dialog_children (ServerSearch (xs @ ys) opn)
    \<and> rendered_groups (ServerSearch [g1, g] opn) = rendered_groups (ServerSearch [g1] opn)"
proof -
  from assms have ng: "\<not> has_items g"
    by (rule absent_or_empty_no_items)
  then have "flat (render_group g) = []"
    by (simp add: flat_render_group)
  moreover from ng have "filter has_items (xs @ g # ys) = filter has_items (xs @ ys)"
    by simp
  moreover from ng have "filter has_items [g1, g] = filter has_items [g1]"
    by simp
  ultimately show ?thesis
    by (simp only: rendered_groups_ServerSearch dialog_children_ServerSearch simp_thms)
qed

theorem empty_group_not_rendered_witness:
  "(let g1 = \<lparr>label = ''Text Channels'', type' = Channel,
               data = Some [\<lparr>icon = (), name = ''general'', id' = ''1''\<rparr>]\<rparr>;
        g2 = \<lparr>label = ''Members'', type' = Member, data = Some []\<rparr>
    in data g2 = Some []
       \<and> map heading_of (rendered_groups (ServerSearch [g1, g2] True)) =
           [Some (PStr ''Text Channels'')]
       \<and> map (map key_of \<circ> rows) (rendered_groups (ServerSearch [g1, g2] True)) =
           [[Some ''1'']])"
  using empty_group_not_rendered
    [of "\<lparr>label = ''Members'', type' = Member, data = Some []\<rparr>" "[]" "[]" True
        "\<lparr>label = ''Text Channels'', type' = Channel,
          data = Some [\<lparr>icon = (), name = ''general'', id' = ''1''\<rparr>]\<rparr>"]
  by (simp add: rendered_groups_ServerSearch has_items_def render_group_def rows_def
      render_item_def heading_of_def tagged_Nil tagged_Cons)

subsection \<open>Keys\<close>

text \<open>
  C2. When the item ids of the whole input are distinct, the keys of the rendered rows
  are exactly the ids of the items of the groups that have items, no key occurs
  twice, and each rendered group is keyed by its label.
\<close>

theorem row_keys_are_item_ids:
  assumes "distinct (map id' (concat (map items_of gs)))"
  shows "set (row_keys (ServerSearch gs opn)) =
           Some ` id' ` set (concat (map items_of (filter has_items gs)))
    \<and> distinct (row_keys (ServerSearch gs opn))
    \<and> map key_of (rendered_groups (ServerSearch gs opn)) =
        map (\<lambda>g. Some (label g)) (filter has_items gs)"
proof -
  have keys: "row_keys (ServerSearch gs opn) =
      map Some (map id' (concat (map items_of gs)))"
    by (simp add: row_keys_ServerSearch)
  have "set (row_keys (ServerSearch gs opn)) =
      Some ` id' ` set (concat (map items_of (filter has_items gs)))"
    unfolding keys items_filter_has_items by (simp add: image_image)
  moreover from assms have "distinct (row_keys (ServerSearch gs opn))"
    unfolding keys by (subst distinct_map) simp
  moreover have "map key_of (rendered_groups (ServerSearch gs opn)) =
      map (\<lambda>g. Some (label g)) (filter has_items gs)"
    by (simp add: rendered_groups_ServerSearch key_render_group)
  ultimately show ?thesis by blast
qed

theorem row_keys_are_item_ids_witness:
  "(let gs = [\<lparr>label = ''Text Channels'', type' = Channel,
                data = Some [\<lparr>icon = (), name = ''general'', id' = ''1''\<rparr>,
                             \<lparr>icon = (), name = ''random'', id' = ''2''\<rparr>]\<rparr>,
              \<lparr>label = ''Voice Channels'', type' = Channel, data = None\<rparr>,
              \<lparr>label = ''Members'', type' = Member,
                data = Some [\<lparr>icon = (), name = ''ann'', id' = ''3''\<rparr>]\<rparr>]
    in distinct (map id' (concat (map items_of gs)))
       \<and> set (row_keys (ServerSearch gs False)) = {Some ''1'', Some ''2'', Some ''3''}
       \<and> map key_of (rendered_groups (ServerSearch gs False)) =
           [Some ''Text Channels'', Some ''Members''])"
  using row_keys_are_item_ids
    [of "[\<lparr>label = ''Text Channels'', type' = Channel,
                data = Some [\<lparr>icon = (), name = ''general'', id' = ''1''\<rparr>,
                             \<lparr>icon = (), name = ''random'', id' = ''2''\<rparr>]\<rparr>,
              \<lparr>label = ''Voice Channels'', type' = Channel, data = None\<rparr>,
              \<lparr>label = ''Members'', type' = Member,
                data = Some [\<lparr>icon = (), name = ''ann'', id' = ''3''\<rparr>]\<rparr>]" False]
  by (simp add: items_of_def has_items_def)

subsection \<open>The empty state and the results list\<close>

text \<open>
  C4. When the input has no item at all (every group's item sequence is absent or
  empty), the results list holds the \<open>No Result found\<close> placeholder and nothing else,
  no group is rendered, and the dialog has no child besides the search input and that
  list.
\<close>

theorem empty_state_only:
  assumes "concat (map items_of gs) = []"
  shows "results_area (ServerSearch gs opn) =
           [Element ''CommandEmpty'' None [] [Text ''No Result found'']]
    \<and> rendered_groups (ServerSearch gs opn) = []
    \<and> dialog_children (ServerSearch gs opn) =
        [Element ''CommandInput'' None
           [(''placeholder'', PStr ''Search all channels and members'')] [],
         Element ''CommandList'' None []
           [Element ''CommandEmpty'' None [] [Text ''No Result found'']]]"
proof -
  from assms have "filter has_items gs = []"
    by (rule no_items_no_groups)
  then show ?thesis
    by (simp add: results_area_def rendered_groups_def dialog_children_ServerSearch
        tagged_Nil tagged_Cons)
qed

theorem empty_state_only_witness:
  "(let gs = [\<lparr>label = ''Text Channels'', type' = Channel, data = None\<rparr>,
              \<lparr>label = ''Members'', type' = Member,
                data = Some ([] :: unit item list)\<rparr>]
    in concat (map items_of gs) = []
       \<and> map text_of (results_area (ServerSearch gs True)) = [''No Result found'']
       \<and> map tag_of (dialog_children (ServerSearch gs True)) =
           [Some ''CommandInput'', Some ''CommandList''])"
  using empty_state_only
    [of "[\<lparr>label = ''Text Channels'', type' = Channel, data = None\<rparr>,
          \<lparr>label = ''Members'', type' = Member, data = Some ([] :: unit item list)\<rparr>]"
        True]
  by (simp add: items_of_def)

lemma tags_of_groups:
  "map (tag_of \<circ> render_group) (filter has_items gs) =
     replicate (length (filter has_items gs)) (Some ''CommandGroup'')"
  by (induction gs) (simp_all add: tag_render_group)

lemma headings_of_groups:
  "map (heading_of \<circ> render_group) (filter has_items gs) =
     map (\<lambda>g. Some (PStr (label g))) (filter has_items gs)"
  by (induction gs) (simp_all add: heading_render_group)

lemma tag_render_item: "tag_of (render_item it) = Some ''CommandItem''"
  by (simp add: render_item_def)

text \<open>
  C8. Whatever the input, the \<open>CommandList\<close> has exactly one child, the
  \<open>CommandEmpty\<close> element, and no \<open>CommandItem\<close> anywhere inside it. The children of
  the dialog are the search input, the \<open>CommandList\<close> and then, after the list, one
  \<open>CommandGroup\<close> for each group of the input that has items, headed by its label;
  the rows of these groups, read in order, are one \<open>CommandItem\<close> for each item of
  the input, with the item's id as key and its name as text.
\<close>

theorem rows_outside_results_list:
  "results_area (ServerSearch gs opn) =
     [Element ''CommandEmpty'' None [] [Text ''No Result found'']]
   \<and> tagged ''CommandItem''
       (concat (map elements (tagged ''CommandList'' (dialog_children (ServerSearch gs opn)))))
       = []
   \<and> dialog_children (ServerSearch gs opn) =
       [Element ''CommandInput'' None
          [(''placeholder'', PStr ''Search all channels and members'')] [],
        Element ''CommandList'' None []
          [Element ''CommandEmpty'' None [] [Text ''No Result found'']]]
       @ rendered_groups (ServerSearch gs opn)
   \<and> map tag_of (drop 2 (dialog_children (ServerSearch gs opn))) =
       replicate (length (filter has_items gs)) (Some ''CommandGroup'')
   \<and> map heading_of (drop 2 (dialog_children (ServerSearch gs opn))) =
       map (\<lambda>g. Some (PStr (label g))) (filter has_items gs)
   \<and> map (\<lambda>r. (tag_of r, key_of r, text_of r))
        (concat (map rows (drop 2 (dialog_children (ServerSearch gs opn))))) =
       map (\<lambda>it. (Some ''CommandItem'', Some (id' it), name it)) (concat (map items_of gs))"
proof -
  have inside: "results_area (ServerSearch gs opn) =
       [Element ''CommandEmpty'' None [] [Text ''No Result found'']]
     \<and> tagged ''CommandItem''
         (concat (map elements (tagged ''CommandList'' (dialog_children (ServerSearch gs opn)))))
         = []
     \<and> dialog_children (ServerSearch gs opn) =
         [Element ''CommandInput'' None
            [(''placeholder'', PStr ''Search all channels and members'')] [],
          Element ''CommandList'' None []
            [Element ''CommandEmpty'' None [] [Text ''No Result found'']]]
         @ rendered_groups (ServerSearch gs opn)"
    by (simp add: results_area_def rendered_groups_ServerSearch dialog_children_ServerSearch
        tagged_append tagged_list_groups tagged_Nil tagged_Cons)
  have after: "drop 2 (dialog_children (ServerSearch gs opn)) =
      map render_group (filter has_items gs)"
    by (simp add: dialog_children_ServerSearch)
  have tags: "map tag_of (drop 2 (dialog_children (ServerSearch gs opn))) =
      replicate (length (filter has_items gs)) (Some ''CommandGroup'')"
    unfolding after by (simp add: tags_of_groups)
  have heads: "map heading_of (drop 2 (dialog_children (ServerSearch gs opn))) =
      map (\<lambda>g. Some (PStr (label g))) (filter has_items gs)"
    unfolding after by (simp add: headings_of_groups)
  have "concat (map rows (drop 2 (dialog_children (ServerSearch gs opn)))) =
      map render_item (concat (map items_of gs))"
    unfolding after by (simp add: rows_of_groups items_filter_has_items)
  then have "map (\<lambda>r. (tag_of r, key_of r, text_of r))
        (concat (map rows (drop 2 (dialog_children (ServerSearch gs opn))))) =
       map (\<lambda>it. (Some ''CommandItem'', Some (id' it), name it)) (concat (map items_of gs))"
    by (simp add: comp_def tag_render_item key_render_item text_render_item)
  with inside tags heads show ?thesis
    by blast
qed

theorem rows_outside_results_list_witness:
  "(let tree = ServerSearch
        [\<lparr>label = ''Text Channels'', type' = Channel,
           data = Some [\<lparr>icon = (), name = ''general'', id' = ''1''\<rparr>,
                        \<lparr>icon = (), name = ''random'', id' = ''2''\<rparr>]\<rparr>,
         \<lparr>label = ''Voice Channels'', type' = Channel, data = Some []\<rparr>,
         \<lparr>label = ''Members'', type' = Member,
           data = Some [\<lparr>icon = (), name = ''ann'', id' = ''3''\<rparr>]\<rparr>] True
    in map tag_of (dialog_children tree) =
         [Some ''CommandInput'', Some ''CommandList'', Some ''CommandGroup'', Some ''CommandGroup'']
       \<and> map text_of (results_area tree) = [''No Result found'']
       \<and> map heading_of (drop 2 (dialog_children tree)) =
           [Some (PStr ''Text Channels''), Some (PStr ''Members'')]
       \<and> map (\<lambda>r. (tag_of r, key_of r, text_of r))
            (concat (map rows (drop 2 (dialog_children tree)))) =
           [(Some ''CommandItem'', Some ''1'', ''general''),
            (Some ''CommandItem'', Some ''2'', ''random''),
            (Some ''CommandItem'', Some ''3'', ''ann'')])"
proof -
  let ?gs = "[\<lparr>label = ''Text Channels'', type' = Channel,
           data = Some [\<lparr>icon = (), name = ''general'', id' = ''1''\<rparr>,
                        \<lparr>icon = (), name = ''random'', id' = ''2''\<rparr>]\<rparr>,
         \<lparr>label = ''Voice Channels'', type' = Channel, data = Some []\<rparr>,
         \<lparr>label = ''Members'', type' = Member,
           data = Some [\<lparr>icon = (), name = ''ann'', id' = ''3''\<rparr>]\<rparr>]"
  have tags: "map tag_of (dialog_children (ServerSearch ?gs True)) =
      map tag_of (take 2 (dialog_children (ServerSearch ?gs True)))
      @ map tag_of (drop 2 (dialog_children (ServerSearch ?gs True)))"
    by (simp only: map_append [symmetric] append_take_drop_id)
  note inst = rows_outside_results_list [of ?gs True]
  note inside = inst [THEN conjunct1]
  note split = inst [THEN conjunct2, THEN conjunct2, THEN conjunct1]
  note group_tags = inst [THEN conjunct2, THEN conjunct2, THEN conjunct2, THEN conjunct1]
  note heads = inst [THEN conjunct2, THEN conjunct2, THEN conjunct2, THEN conjunct2,
      THEN conjunct1]
  note row_list = inst [THEN conjunct2, THEN conjunct2, THEN conjunct2, THEN conjunct2,
      THEN conjunct2]
  have first_two: "take 2 (dialog_children (ServerSearch ?gs True)) =
      [Element ''CommandInput'' None
          [(''placeholder'', PStr ''Search all channels and members'')] [],
        Element ''CommandList'' None []
          [Element ''CommandEmpty'' None [] [Text ''No Result found'']]]"
    by (subst split) simp
  have "map tag_of (dialog_children (ServerSearch ?gs True)) =
      [Some ''CommandInput'', Some ''CommandList'', Some ''CommandGroup'', Some ''CommandGroup'']"
    by (subst tags) (simp add: first_two group_tags has_items_def)
  moreover have "map text_of (results_area (ServerSearch ?gs True)) = [''No Result found'']"
    by (simp add: inside)
  moreover have "map heading_of (drop 2 (dialog_children (ServerSearch ?gs True))) =
      [Some (PStr ''Text Channels''), Some (PStr ''Members'')]"
    by (simp add: heads has_items_def)
  moreover have "map (\<lambda>r. (tag_of r, key_of r, text_of r))
        (concat (map rows (drop 2 (dialog_children (ServerSearch ?gs True))))) =
      [(Some ''CommandItem'', Some ''1'', ''general''),
       (Some ''CommandItem'', Some ''2'', ''random''),
       (Some ''CommandItem'', Some ''3'', ''ann'')]"
    by (simp add: row_list items_of_def)
  ultimately show ?thesis
    unfolding Let_def by blast
qed

subsection \<open>Order\<close>

text \<open>
  C9. The rendered groups are the groups of the input that have items, in the order of
  the input, and the rows of each rendered group are its items, in the order of its
  item sequence: reading heading, row keys and row names off the output gives the
  labels, ids and names of the input, in sequence.
\<close>

theorem render_preserves_order:
  "rendered_groups (ServerSearch gs opn) = map render_group (filter has_items gs)
   \<and> map (\<lambda>e. (heading_of e, map (\<lambda>r. (key_of r, text_of r)) (rows e)))
        (rendered_groups (ServerSearch gs opn)) =
      map (\<lambda>g. (Some (PStr (label g)), map (\<lambda>it. (Some (id' it), name it)) (items_of g)))
        (filter has_items gs)"
  by (simp add: rendered_groups_ServerSearch rows_render_group heading_render_group
      key_render_item text_render_item comp_def)

theorem render_preserves_order_witness:
  "map (\<lambda>e. (heading_of e, map (\<lambda>r. (key_of r, text_of r)) (rows e)))
     (rendered_groups (ServerSearch
        [\<lparr>label = ''B'', type' = Member,
           data = Some [\<lparr>icon = (), name = ''zed'', id' = ''9''\<rparr>,
                        \<lparr>icon = (), name = ''amy'', id' = ''4''\<rparr>]\<rparr>,
         \<lparr>label = ''C'', type' = Channel, data = None\<rparr>,
         \<lparr>label = ''A'', type' = Channel,
           data = Some [\<lparr>icon = (), name = ''general'', id' = ''7''\<rparr>]\<rparr>] False)) =
   [(Some (PStr ''B''), [(Some ''9'', ''zed''), (Some ''4'', ''amy'')]),
    (Some (PStr ''A''), [(Some ''7'', ''general'')])]"
  using render_preserves_order
    [of "[\<lparr>label = ''B'', type' = Member,
           data = Some [\<lparr>icon = (), name = ''zed'', id' = ''9''\<rparr>,
                        \<lparr>icon = (), name = ''amy'', id' = ''4''\<rparr>]\<rparr>,
         \<lparr>label = ''C'', type' = Channel, data = None\<rparr>,
         \<lparr>label = ''A'', type' = Channel,
           data = Some [\<lparr>icon = (), name = ''general'', id' = ''7''\<rparr>]\<rparr>]" False,
     THEN conjunct2]
  by (simp add: has_items_def items_of_def)

subsection \<open>Callbacks and events\<close>

lemma concat_map_concat:
  "concat (map f (concat xss)) = concat (map (\<lambda>xs. concat (map f xs)) xss)"
  by (induction xss) simp_all

lemma all_callbacks_Element:
  "all_callbacks (Element t k ps cs) =
     map (\<lambda>(a, h). (Some t, a, h)) (fun_attrs ps) @ concat (map all_callbacks cs)"
  by (simp add: all_callbacks_def [abs_def] concat_map_concat comp_def)

lemma all_callbacks_Fragment: "all_callbacks (Fragment cs) = concat (map all_callbacks cs)"
  by (simp add: all_callbacks_def [abs_def] concat_map_concat comp_def)

lemma all_callbacks_Array: "all_callbacks (Array cs) = concat (map all_callbacks cs)"
  by (simp add: all_callbacks_def [abs_def] concat_map_concat comp_def)

lemma all_callbacks_leaf:
  "all_callbacks Null = []" "all_callbacks (Text s) = []" "all_callbacks (Handle h) = []"
  by (simp_all add: all_callbacks_def)

lemmas all_callbacks_simps =
  all_callbacks_Element all_callbacks_Fragment all_callbacks_Array all_callbacks_leaf

lemma all_callbacks_render_item: "all_callbacks (render_item it) = []"
  by (simp add: render_item_def all_callbacks_simps)

lemma all_callbacks_render_group: "all_callbacks (render_group g) = []"
  by (cases "data g")
    (simp_all add: render_group_def all_callbacks_simps all_callbacks_render_item)

lemma all_callbacks_trigger:
  "all_callbacks trigger = [(Some ''button'', ''onClick'', SetOpenConst True)]"
  by (simp add: trigger_def all_callbacks_simps)

lemma all_callbacks_dialog:
  "all_callbacks (dialog gs opn) = [(Some ''CommandDialog'', ''onOpenChange'', SetOpen)]"
  by (simp add: dialog_def all_callbacks_simps all_callbacks_render_group)

lemma all_callbacks_ServerSearch:
  "all_callbacks (ServerSearch gs opn) =
     [(Some ''button'', ''onClick'', SetOpenConst True),
      (Some ''CommandDialog'', ''onOpenChange'', SetOpen)]"
  by (simp add: ServerSearch_def all_callbacks_simps all_callbacks_trigger
      all_callbacks_dialog)

lemma child_callbacks:
  "m \<in> set (children n) \<Longrightarrow> set (all_callbacks m) \<subseteq> set (all_callbacks n)"
  by (cases n) (auto simp: all_callbacks_simps)

lemma own_callbacks:
  "(a, h) \<in> set (fun_attrs (props_of n)) \<Longrightarrow> (tag_of n, a, h) \<in> set (all_callbacks n)"
  by (cases n) (auto simp: all_callbacks_simps)

lemma locate_hd: "locate n p = Some chain \<Longrightarrow> chain \<noteq> [] \<and> hd chain = n"
  by (cases p) (auto split: if_splits)

lemma chain_callbacks:
  "locate n p = Some chain \<Longrightarrow> m \<in> set chain \<Longrightarrow>
   (a, h) \<in> set (fun_attrs (props_of m)) \<Longrightarrow> (tag_of m, a, h) \<in> set (all_callbacks n)"
proof (induction p arbitrary: n chain)
  case Nil
  then show ?case by (auto simp: own_callbacks)
next
  case (Cons i p)
  from Cons.prems(1) have i: "i < length (children n)"
    by (simp split: if_splits)
  with Cons.prems(1) obtain rest where
    rest: "locate (children n ! i) p = Some rest" and chain: "chain = n # rest"
    by auto
  show ?case
  proof (cases "m = n")
    case True
    with Cons.prems(3) show ?thesis by (simp add: own_callbacks)
  next
    case False
    with Cons.prems(2) chain have m: "m \<in> set rest" by simp
    from rest m Cons.prems(3) have "(tag_of m, a, h) \<in> set (all_callbacks (children n ! i))"
      by (rule Cons.IH)
    moreover from i have "children n ! i \<in> set (children n)" by simp
    ultimately show ?thesis using child_callbacks by blast
  qed
qed

lemma callbacks_attr:
  "h \<in> set (callbacks names m) \<Longrightarrow> \<exists>a \<in> set names. (a, h) \<in> set (fun_attrs (props_of m))"
  by (auto simp: callbacks_def)

lemma bubbling_in_tree:
  assumes "locate n p = Some chain" and "h \<in> set (bubbling names chain)"
  shows "\<exists>t a. a \<in> set names \<and> (t, a, h) \<in> set (all_callbacks n)"
proof -
  from assms(2) obtain m where m: "m \<in> set chain" and h: "h \<in> set (callbacks names m)"
    by (auto simp: bubbling_def)
  from h obtain a where a: "a \<in> set names" and ah: "(a, h) \<in> set (fun_attrs (props_of m))"
    using callbacks_attr by blast
  from assms(1) m ah have "(tag_of m, a, h) \<in> set (all_callbacks n)"
    by (rule chain_callbacks)
  with a show ?thesis by blast
qed

lemma run_Nil: "run [] v c = c"
  by (simp add: run_def)

lemma run_const:
  "hs \<noteq> [] \<Longrightarrow> set hs \<subseteq> {SetOpenConst b} \<Longrightarrow> run hs v c = c\<lparr>flag := b\<rparr>"
proof (induction hs arbitrary: c)
  case Nil
  then show ?case by simp
next
  case (Cons h hs)
  then have h: "h = SetOpenConst b" by simp
  show ?case
  proof (cases "hs = []")
    case True
    with h show ?thesis by (simp add: run_def)
  next
    case False
    with Cons have "run hs v (c\<lparr>flag := b\<rparr>) = c\<lparr>flag := b\<rparr>\<lparr>flag := b\<rparr>"
      by simp
    with h show ?thesis by (simp add: run_def)
  qed
qed

lemma step_Key: "step c (Key p k) = c"
proof (cases "locate (render c) p")
  case None
  then show ?thesis by (simp add: step_def)
next
  case (Some chain)
  have "h \<notin> set (bubbling [''onKeyDown'', ''onKeyUp'', ''onKeyPress''] chain)" for h
  proof
    assume "h \<in> set (bubbling [''onKeyDown'', ''onKeyUp'', ''onKeyPress''] chain)"
    with Some obtain t a where "a \<in> set [''onKeyDown'', ''onKeyUp'', ''onKeyPress'']"
      and "(t, a, h) \<in> set (all_callbacks (render c))"
      using bubbling_in_tree by blast
    then show False
      by (auto simp: render_def all_callbacks_ServerSearch)
  qed
  then have "bubbling [''onKeyDown'', ''onKeyUp'', ''onKeyPress''] chain = []"
    by (cases "bubbling [''onKeyDown'', ''onKeyUp'', ''onKeyPress''] chain") auto
  then show ?thesis using Some by (simp add: step_def run_Nil)
qed

lemma step_Select: "step c (Select p) = c"
proof (cases "locate (render c) p")
  case None
  then show ?thesis by (simp add: step_def)
next
  case (Some chain)
  then have last: "last chain \<in> set chain"
    using locate_hd by fastforce
  have "h \<notin> set (callbacks [''onSelect''] (last chain))" for h
  proof
    assume "h \<in> set (callbacks [''onSelect''] (last chain))"
    then obtain a where "a \<in> set [''onSelect'']"
      and "(a, h) \<in> set (fun_attrs (props_of (last chain)))"
      using callbacks_attr by blast
    with Some last have "a = ''onSelect''"
      and "(tag_of (last chain), a, h) \<in> set (all_callbacks (render c))"
      using chain_callbacks by auto
    then show False
      by (auto simp: render_def all_callbacks_ServerSearch)
  qed
  then have "callbacks [''onSelect''] (last chain) = []"
    by (cases "callbacks [''onSelect''] (last chain)") auto
  then show ?thesis using Some by (simp add: step_def run_Nil)
qed

lemma step_Dismiss: "step c Dismiss = c\<lparr>flag := False\<rparr>"
  by (simp add: step_def render_def dialogs_ServerSearch callbacks_def run_def
      dismiss_value_def)

lemma locate_ServerSearch_Nil:
  "locate (ServerSearch gs opn) [] = Some [ServerSearch gs opn]"
  by simp

lemma locate_ServerSearch_Cons:
  "locate (ServerSearch gs opn) (i # q) =
     (if i = 0 then map_option (\<lambda>chain. ServerSearch gs opn # chain) (locate trigger q)
      else if i = 1
        then map_option (\<lambda>chain. ServerSearch gs opn # chain) (locate (dialog gs opn) q)
      else None)"
  by (cases i) (auto simp: ServerSearch_def)

lemma callbacks_Fragment: "callbacks names (Fragment cs) = []"
  by (simp add: callbacks_def)

lemma bubbling_Cons:
  "bubbling names (n # chain) = bubbling names chain @ callbacks names n"
  by (simp add: bubbling_def)

lemma step_Click_root: "step c (Click []) = c"
  by (simp add: step_def render_def ServerSearch_def bubbling_def callbacks_def run_Nil)

lemma step_Click_dialog: "step c (Click (Suc i # q)) = c"
proof (cases "locate (render c) (Suc i # q)")
  case None
  then show ?thesis by (simp add: step_def)
next
  case (Some chain)
  then obtain rest where
    rest: "locate (dialog (props_data c) (flag c)) q = Some rest"
    and chain: "chain = render c # rest"
    unfolding render_def locate_ServerSearch_Cons by (auto split: if_splits)
  have "h \<notin> set (bubbling [''onClick''] rest)" for h
  proof
    assume "h \<in> set (bubbling [''onClick''] rest)"
    with rest obtain t a where "a \<in> set [''onClick'']"
      and "(t, a, h) \<in> set (all_callbacks (dialog (props_data c) (flag c)))"
      using bubbling_in_tree by blast
    then show False
      by (auto simp: all_callbacks_dialog)
  qed
  then have "bubbling [''onClick''] rest = []"
    by (cases "bubbling [''onClick''] rest") auto
  moreover have "callbacks [''onClick''] (render c) = []"
    by (simp add: render_def ServerSearch_def callbacks_Fragment)
  ultimately have "bubbling [''onClick''] chain = []"
    by (simp add: chain bubbling_Cons)
  then show ?thesis
    using Some by (simp add: step_def run_Nil)
qed

lemma step_Click_trigger:
  "step c (Click (0 # q)) =
     (if locate (render c) (0 # q) = None then c else c\<lparr>flag := True\<rparr>)"
proof (cases "locate (render c) (0 # q)")
  case None
  then show ?thesis by (simp add: step_def)
next
  case (Some chain)
  then obtain rest where
    rest: "locate (trigger :: 'a node) q = Some rest"
    and chain: "chain = render c # rest"
    unfolding render_def locate_ServerSearch_Cons by auto
  have sub: "set (bubbling [''onClick''] rest) \<subseteq> {SetOpenConst True}"
  proof
    fix h
    assume "h \<in> set (bubbling [''onClick''] rest)"
    with rest obtain t a where "(t, a, h) \<in> set (all_callbacks (trigger :: 'a node))"
      using bubbling_in_tree by blast
    then show "h \<in> {SetOpenConst True}"
      by (simp add: all_callbacks_trigger)
  qed
  from rest have "trigger \<in> set rest"
    using locate_hd [OF rest] by (cases rest) auto
  moreover have "SetOpenConst True \<in> set (callbacks [''onClick''] (trigger :: 'a node))"
    by (simp add: callbacks_def trigger_def)
  ultimately have "\<exists>m \<in> set rest. callbacks [''onClick''] m \<noteq> []"
    by (intro bexI [of _ trigger]) auto
  then have ne: "bubbling [''onClick''] rest \<noteq> []"
    by (simp add: bubbling_def)
  have "callbacks [''onClick''] (render c) = []"
    by (simp add: render_def ServerSearch_def callbacks_Fragment)
  then have "bubbling [''onClick''] chain = bubbling [''onClick''] rest"
    by (simp add: chain bubbling_Cons)
  with run_const [OF ne sub] Some show ?thesis
    by (simp add: step_def)
qed


lemma step_Click:
  "step c (Click p) =
     (if (\<exists>q. p = 0 # q) \<and> locate (render c) p \<noteq> None then c\<lparr>flag := True\<rparr> else c)"
proof (cases p)
  case Nil
  then show ?thesis by (simp add: step_Click_root)
next
  case (Cons i q)
  then show ?thesis
    by (cases i) (simp_all add: step_Click_trigger step_Click_dialog)
qed

lemma locate_trigger_button:
  "locate (render c) [0] = Some [render c, trigger]"
  by (simp add: render_def ServerSearch_def)

lemma step_Click_button: "step c (Click [0]) = c\<lparr>flag := True\<rparr>"
  by (simp add: step_Click_trigger locate_trigger_button del: locate.simps)

lemma kbd_items: "tagged ''kbd'' (concat (map (elements \<circ> render_item) xs)) = []"
  by (induction xs) (simp_all add: render_item_def tagged_Nil tagged_Cons)

lemma kbd_render_group: "tagged ''kbd'' (elements (render_group g)) = []"
  by (cases "data g") (simp_all add: render_group_def tagged_Nil tagged_Cons kbd_items)

lemma kbd_groups: "tagged ''kbd'' (concat (map (elements \<circ> render_group) gs)) = []"
  by (induction gs) (simp_all add: tagged_Nil tagged_append kbd_render_group)

lemma kbd_ServerSearch:
  "tagged ''kbd'' (elements (ServerSearch gs opn)) =
     [Element ''kbd'' None
        [(''className'', PStr ''pointer-event-none inline-flex h-5 select-none items-center gap-1 rounded border bg-muted px-1.5 font-mono text-[10px] font-medium text-muted-foreground ml-auto'')]
        [Element ''span'' None [(''className'', PStr ''text-xs'')] [Text cmd_glyph],
         Text ''K'']]"
  by (simp add: ServerSearch_def trigger_def dialog_def tagged_Nil tagged_Cons kbd_groups)

lemma open_attr:
  "map (\<lambda>d. map_of (props_of d) ''open'') (dialogs (render c)) = [Some (PBool (flag c))]"
  by (simp add: render_def dialogs_ServerSearch)

subsection \<open>The open flag\<close>

text \<open>
  C3. The state of the component is the boolean flag, False (Closed) when the
  component is mounted. A click on the trigger button leaves the flag True (Open), a
  dismissal of the dialog leaves it False (Closed). An action changes nothing but the
  flag, and the flag changes only from Closed to Open by a click on the trigger (on
  the button or inside it) and from Open to Closed by a dismissal. The dialog is given
  the flag as its \<open>open\<close> attribute, so it is not open while the flag is False.
\<close>

theorem open_flag_state_machine:
  "flag (mount gs) = False
   \<and> flag (step c (Click [0])) = True
   \<and> flag (step c Dismiss) = False
   \<and> step c a = c\<lparr>flag := flag (step c a)\<rparr>
   \<and> (flag (step c a) \<noteq> flag c \<longrightarrow>
        (\<not> flag c \<and> (\<exists>q. a = Click (0 # q))) \<or> (flag c \<and> a = Dismiss))
   \<and> map (\<lambda>d. map_of (props_of d) ''open'') (dialogs (render c)) = [Some (PBool (flag c))]"
proof -
  have "flag (mount gs) = False"
    by (simp add: mount_def init_open_def)
  moreover have "flag (step c (Click [0])) = True"
    by (simp add: step_Click_button)
  moreover have "flag (step c Dismiss) = False"
    by (simp add: step_Dismiss)
  moreover have "step c a = c\<lparr>flag := flag (step c a)\<rparr>"
    by (cases a) (simp_all add: step_Click step_Key step_Select step_Dismiss)
  moreover have "flag (step c a) \<noteq> flag c \<longrightarrow>
      (\<not> flag c \<and> (\<exists>q. a = Click (0 # q))) \<or> (flag c \<and> a = Dismiss)"
    by (cases a) (auto simp: step_Click step_Key step_Select step_Dismiss split: if_splits)
  ultimately show ?thesis
    using open_attr by blast
qed

theorem open_flag_state_machine_witness:
  "flag (step (mount ([] :: unit group list)) (Click [0])) \<noteq> flag (mount ([] :: unit group list))
   \<and> \<not> flag (mount ([] :: unit group list))
   \<and> (\<exists>q. Click [0] = Click (0 # q))
   \<and> flag (step (step (mount ([] :: unit group list)) (Click [0])) Dismiss) = False"
  using open_flag_state_machine
    [of "[] :: unit group list" "mount ([] :: unit group list)" "Click [0]"]
    open_flag_state_machine
    [of "[] :: unit group list" "step (mount ([] :: unit group list)) (Click [0])" Dismiss]
  by simp

text \<open>
  C10. The component registers two callbacks and no more: \<open>onClick\<close> on the button and
  \<open>onOpenChange\<close> on the dialog. The \<open>kbd\<close> element showing the shortcut glyph and
  \<open>K\<close> carries none, and a key event, whatever its target and key, leaves the
  component as it was. An action that takes the flag from Closed to Open is a click
  on the trigger.
\<close>

theorem trigger_click_only_opens:
  "all_callbacks (render c) =
     [(Some ''button'', ''onClick'', SetOpenConst True),
      (Some ''CommandDialog'', ''onOpenChange'', SetOpen)]
   \<and> map (\<lambda>e. (text_of e, all_callbacks e)) (tagged ''kbd'' (elements (render c))) =
       [(cmd_glyph @ ''K'', [])]
   \<and> step c (Key p k) = c
   \<and> (\<not> flag c \<and> flag (step c a) \<longrightarrow>
        (\<exists>q. a = Click (0 # q) \<and> locate (render c) (0 # q) \<noteq> None))"
proof -
  have "all_callbacks (render c) =
     [(Some ''button'', ''onClick'', SetOpenConst True),
      (Some ''CommandDialog'', ''onOpenChange'', SetOpen)]"
    by (simp add: render_def all_callbacks_ServerSearch)
  moreover have "map (\<lambda>e. (text_of e, all_callbacks e)) (tagged ''kbd'' (elements (render c))) =
       [(cmd_glyph @ ''K'', [])]"
    by (simp add: render_def kbd_ServerSearch all_callbacks_simps)
  moreover have "\<not> flag c \<and> flag (step c a) \<longrightarrow>
        (\<exists>q. a = Click (0 # q) \<and> locate (render c) (0 # q) \<noteq> None)"
    by (cases a) (auto simp: step_Click step_Key step_Select step_Dismiss split: if_splits)
  ultimately show ?thesis
    using step_Key by blast
qed

theorem trigger_click_only_opens_witness:
  "\<not> flag (mount ([] :: unit group list))
   \<and> flag (step (mount ([] :: unit group list)) (Click [0]))
   \<and> (\<exists>q. Click [0] = Click (0 # q)
          \<and> locate (render (mount ([] :: unit group list))) (0 # q) \<noteq> None)"
  using trigger_click_only_opens [of "mount ([] :: unit group list)" "[]" "[]" "Click [0]"]
  by (simp add: step_Click_button mount_def init_open_def)

subsection \<open>A scenario\<close>

text \<open>
  C5. Mounted with the one group \<open>Text Channels\<close> of type channel holding the one item
  \<open>general\<close> with id \<open>1\<close> (and any icon), and opened by a click on the trigger, the
  component renders an open dialog with exactly one group, headed \<open>Text Channels\<close>,
  and exactly one row, keyed \<open>1\<close> and displaying \<open>general\<close>.
\<close>

theorem text_channels_scenario:
  "flag (step (mount [\<lparr>label = ''Text Channels'', type' = Channel,
            data = Some [\<lparr>icon = i, name = ''general'', id' = ''1''\<rparr>]\<rparr>]) (Click [0]))
   \<and> map heading_of
        (rendered_groups (render (step (mount [\<lparr>label = ''Text Channels'', type' = Channel,
            data = Some [\<lparr>icon = i, name = ''general'', id' = ''1''\<rparr>]\<rparr>]) (Click [0])))) =
      [Some (PStr ''Text Channels'')]
   \<and> map (\<lambda>r. (key_of r, text_of r))
        (concat (map rows
          (rendered_groups (render (step (mount [\<lparr>label = ''Text Channels'', type' = Channel,
            data = Some [\<lparr>icon = i, name = ''general'', id' = ''1''\<rparr>]\<rparr>]) (Click [0])))))) =
      [(Some ''1'', ''general'')]"
  by (simp add: step_Click_button mount_def render_def rendered_groups_ServerSearch
      has_items_def heading_render_group rows_render_group items_of_def
      key_render_item text_render_item)

subsection \<open>No failure on well-formed input\<close>

lemma array_map_ok:
  "list_all (\<lambda>x. \<exists>y. f x = Inr y) xs \<Longrightarrow> \<exists>ys. array_map f xs = Inr ys"
  by (induction xs) auto

lemma render_item_rt_typed:
  "render_item_rt (Some (item_rt_of it)) = Inr (render_item it)"
  by (simp add: render_item_rt_def render_item_def item_rt_of_def handle_child_def
      text_child_def)

lemma array_map_items:
  "array_map render_item_rt (map (\<lambda>it. Some (item_rt_of it)) xs) = Inr (map render_item xs)"
  by (induction xs) (simp_all add: render_item_rt_typed)

lemma render_group_rt_typed:
  "render_group_rt (Some (group_rt_of g)) = Inr (render_group g)"
  by (cases "data g")
    (simp_all add: render_group_rt_def render_group_def group_rt_of_def js_not_def
      optional_length_def optional_map_def array_map_items str_attr_def)

lemma array_map_groups:
  "array_map render_group_rt (map (\<lambda>g. Some (group_rt_of g)) gs) = Inr (map render_group gs)"
  by (induction gs) (simp_all add: render_group_rt_typed)

lemma render_item_rt_wf: "wf_item v \<Longrightarrow> \<exists>n. render_item_rt v = Inr n"
  by (cases v) (simp_all add: wf_item_def render_item_rt_def)

lemma render_group_rt_wf:
  assumes "wf_group v"
  shows "\<exists>n. render_group_rt v = Inr n"
proof -
  from assms obtain g where v: "v = Some g"
    by (cases v) (simp_all add: wf_group_def)
  show ?thesis
  proof (cases "data_rt g")
    case None
    with v show ?thesis
      by (simp add: render_group_rt_def js_not_def optional_length_def)
  next
    case (Some xs)
    with assms v have "list_all wf_item xs"
      by (simp add: wf_group_def)
    then have "list_all (\<lambda>x. \<exists>n. render_item_rt x = Inr n) xs"
      by (induction xs) (simp_all add: render_item_rt_wf)
    then obtain ns where "array_map render_item_rt xs = Inr ns"
      using array_map_ok by blast
    with v Some show ?thesis
      by (simp add: render_group_rt_def optional_map_def)
  qed
qed

lemma ServerSearch_rt_wf:
  assumes "wf_props d"
  shows "\<exists>t. ServerSearch_rt d opn = Inr t"
proof -
  from assms obtain gs where d: "d = Some gs" and gs: "list_all wf_group gs"
    by (cases d) (simp_all add: wf_props_def)
  from gs have "list_all (\<lambda>x. \<exists>n. render_group_rt x = Inr n) gs"
    by (induction gs) (simp_all add: render_group_rt_wf)
  then obtain ns where "array_map render_group_rt gs = Inr ns"
    using array_map_ok by blast
  with d show ?thesis
    by (simp add: ServerSearch_rt_def member_map_def)
qed

lemma wf_props_typed: "wf_props (props_rt_of gs)"
proof -
  have item: "list_all wf_item (map (\<lambda>it. Some (item_rt_of it)) xs)" for xs :: "'a item list"
    by (induction xs) (simp_all add: wf_item_def item_rt_of_def)
  have "wf_group (Some (group_rt_of g))" for g :: "'a group"
    by (cases "data g") (simp_all add: wf_group_def group_rt_of_def item)
  then have "list_all wf_group (map (\<lambda>g. Some (group_rt_of g)) gs)"
    by (induction gs) simp_all
  then show ?thesis
    by (simp add: wf_props_def props_rt_of_def)
qed

text \<open>
  The failure branches are there: an input that is \<open>undefined\<close>, a group that is
  \<open>undefined\<close> and an item that is \<open>undefined\<close> each end the render with a \<open>TypeError\<close>.
\<close>

lemma ServerSearch_rt_fails:
  "ServerSearch_rt None opn = Inl TypeError"
  "ServerSearch_rt (Some [None]) opn = Inl TypeError"
  "ServerSearch_rt
     (Some [Some \<lparr>label_rt = Some ''A'', type_rt = Some Channel, data_rt = Some [None]\<rparr>]) opn =
   Inl TypeError"
  by (simp_all add: ServerSearch_rt_def member_map_def render_group_rt_def js_not_def
      optional_length_def optional_map_def render_item_rt_def)

text \<open>
  C6. On the run-time value of every well-typed input the render returns a tree, the
  one \<open>ServerSearch\<close> describes, and not an error; and on every run-time value that
  conforms to the props interface the render returns a tree. The accesses that could
  throw (the two \<open>map\<close> calls, the two destructuring parameters, the length test) do
  not: the item sequence, the one position the interface leaves optional, is read
  with \<open>?.\<close> only.
\<close>

theorem render_total_on_well_formed:
  "ServerSearch_rt (props_rt_of gs) opn = Inr (ServerSearch gs opn)
   \<and> wf_props (props_rt_of gs)
   \<and> (wf_props d \<longrightarrow> (\<exists>t. ServerSearch_rt d opn = Inr t))"
proof -
  have "ServerSearch_rt (props_rt_of gs) opn = Inr (ServerSearch gs opn)"
    by (simp add: ServerSearch_rt_def member_map_def props_rt_of_def array_map_groups
        ServerSearch_def dialog_def)
  then show ?thesis
    using wf_props_typed ServerSearch_rt_wf by blast
qed

theorem render_total_on_well_formed_witness:
  "(let d = Some [Some \<lparr>label_rt = Some ''Text Channels'', type_rt = Some Channel,
                       data_rt = Some [Some \<lparr>icon_rt = Some (), name_rt = Some ''general'',
                                             id_rt = Some ''1''\<rparr>]\<rparr>,
                  Some \<lparr>label_rt = Some ''Members'', type_rt = Some Member, data_rt = None\<rparr>]
    in wf_props d \<and> (\<exists>t. ServerSearch_rt d True = Inr t))"
  using render_total_on_well_formed
    [of "[]" True
        "Some [Some \<lparr>label_rt = Some ''Text Channels'', type_rt = Some Channel,
                       data_rt = Some [Some \<lparr>icon_rt = Some (), name_rt = Some ''general'',
                                             id_rt = Some ''1''\<rparr>]\<rparr>,
                  Some \<lparr>label_rt = Some ''Members'', type_rt = Some Member, data_rt = None\<rparr>]"]
  by (simp add: wf_props_def wf_group_def wf_item_def) blast

subsection \<open>The store\<close>

lemma lookup_append: "lookup h a = Some c \<Longrightarrow> lookup (h @ e) a = Some c"
  by (auto simp: lookup_def nth_append split: if_splits)

lemma read_item_append: "read_item h a = Some it \<Longrightarrow> read_item (h @ e) a = Some it"
  by (auto simp: read_item_def lookup_append split: option.splits)

lemma read_group_append: "read_group h a = Some g \<Longrightarrow> read_group (h @ e) a = Some g"
  by (auto simp: read_group_def lookup_append split: option.splits)

lemma read_refs_append: "read_refs h a = Some rs \<Longrightarrow> read_refs (h @ e) a = Some rs"
  by (auto simp: read_refs_def lookup_append split: option.splits)

lemma those_items_append:
  "those (map (read_item h) rs) = Some xs \<Longrightarrow> those (map (read_item (h @ e)) rs) = Some xs"
proof (induction rs arbitrary: xs)
  case Nil
  then show ?case by simp
next
  case (Cons a rs)
  then obtain y zs where "read_item h a = Some y" "those (map (read_item h) rs) = Some zs"
    "xs = y # zs"
    by (auto split: option.splits)
  with Cons.IH show ?case
    by (simp add: read_item_append)
qed

lemma items_at_append: "items_at h r = Some xs \<Longrightarrow> items_at (h @ e) r = Some xs"
  by (auto simp: items_at_def read_refs_append those_items_append split: option.splits)

lemma group_at_append: "group_at h a = Some g \<Longrightarrow> group_at (h @ e) a = Some g"
  by (auto simp: group_at_def read_group_append items_at_append split: option.splits)

lemma those_groups_append:
  "those (map (group_at h) rs) = Some gs \<Longrightarrow> those (map (group_at (h @ e)) rs) = Some gs"
proof (induction rs arbitrary: gs)
  case Nil
  then show ?case by simp
next
  case (Cons a rs)
  then obtain y zs where "group_at h a = Some y" "those (map (group_at h) rs) = Some zs"
    "gs = y # zs"
    by (auto split: option.splits)
  with Cons.IH show ?case
    by (simp add: group_at_append)
qed

lemma groups_at_append: "groups_at h r = Some gs \<Longrightarrow> groups_at (h @ e) r = Some gs"
  by (auto simp: groups_at_def read_refs_append those_groups_append split: option.splits)

lemma map_st_items:
  "those (map (read_item h) rs) = Some xs \<Longrightarrow>
   map_st render_item_st h rs = Some (map render_item xs, h)"
proof (induction rs arbitrary: xs)
  case Nil
  then show ?case by simp
next
  case (Cons a rs)
  then obtain y zs where "read_item h a = Some y" "those (map (read_item h) rs) = Some zs"
    "xs = y # zs"
    by (auto split: option.splits)
  with Cons.IH show ?case
    by (simp add: render_item_st_def)
qed

lemma render_group_st_decoded:
  assumes "group_at h a = Some g"
  shows "\<exists>e. render_group_st h a = Some (render_group g, h @ e)"
proof -
  from assms obtain l t d where rg: "read_group h a = Some (l, t, d)"
    by (auto simp: group_at_def split: option.splits)
  show ?thesis
  proof (cases d)
    case None
    with assms rg have "g = \<lparr>label = l, type' = t, data = None\<rparr>"
      by (simp add: group_at_def)
    with rg None have "render_group_st h a = Some (render_group g, h @ [])"
      by (simp add: render_group_st_def render_group_def)
    then show ?thesis by blast
  next
    case (Some r)
    with assms rg obtain xs where xs: "items_at h r = Some xs"
      and g: "g = \<lparr>label = l, type' = t, data = Some xs\<rparr>"
      by (auto simp: group_at_def split: option.splits)
    from xs obtain rs where rs: "read_refs h r = Some rs"
      and dec: "those (map (read_item h) rs) = Some xs"
      by (auto simp: items_at_def split: option.splits)
    from dec have len: "length xs = length rs"
      by (induction rs arbitrary: xs) (auto split: option.splits)
    show ?thesis
    proof (cases "rs = []")
      case True
      with len have "xs = []" by simp
      with rg Some rs True g have "render_group_st h a = Some (render_group g, h @ [])"
        by (simp add: render_group_st_def render_group_def)
      then show ?thesis by blast
    next
      case False
      with len have ne: "xs \<noteq> []" by auto
      from rs dec have "array_map_st render_item_st h r =
          Some (map render_item xs, h @ [NodeArray (map render_item xs)])"
        by (simp add: array_map_st_def map_st_items)
      with rg Some rs False ne g have "render_group_st h a =
          Some (render_group g, h @ [NodeArray (map render_item xs)])"
        by (simp add: render_group_st_def render_group_def)
      then show ?thesis by blast
    qed
  qed
qed

lemma map_st_groups:
  "those (map (group_at h) rs) = Some gs \<Longrightarrow>
   \<exists>e. map_st render_group_st h rs = Some (map render_group gs, h @ e)"
proof (induction rs arbitrary: gs h)
  case Nil
  then have "map_st render_group_st h [] = Some (map render_group gs, h @ [])"
    by simp
  then show ?case by blast
next
  case (Cons a rs)
  then obtain y zs where y: "group_at h a = Some y"
    and zs: "those (map (group_at h) rs) = Some zs" and gs: "gs = y # zs"
    by (auto split: option.splits)
  from y obtain e1 where e1: "render_group_st h a = Some (render_group y, h @ e1)"
    using render_group_st_decoded by blast
  from zs have "those (map (group_at (h @ e1)) rs) = Some zs"
    by (rule those_groups_append)
  then obtain e2 where
    e2: "map_st render_group_st (h @ e1) rs = Some (map render_group zs, (h @ e1) @ e2)"
    using Cons.IH by blast
  from e1 e2 gs have "map_st render_group_st h (a # rs) =
      Some (map render_group gs, h @ (e1 @ e2))"
    by simp
  then show ?case by blast
qed

lemma ServerSearch_st_decoded:
  assumes "groups_at h r = Some gs"
  shows "\<exists>e. ServerSearch_st h r opn = Some (ServerSearch gs opn, h @ e)"
proof -
  from assms obtain rs where rs: "read_refs h r = Some rs"
    and dec: "those (map (group_at h) rs) = Some gs"
    by (auto simp: groups_at_def split: option.splits)
  from dec obtain e where "map_st render_group_st h rs = Some (map render_group gs, h @ e)"
    using map_st_groups by blast
  with rs have "ServerSearch_st h r opn =
      Some (ServerSearch gs opn, h @ (e @ [NodeArray (map render_group gs)]))"
    by (simp add: ServerSearch_st_def array_map_st_def ServerSearch_def dialog_def)
  then show ?thesis by blast
qed

text \<open>Whatever the store holds, a render only adds objects at the end.\<close>

lemma map_st_extends:
  assumes "\<forall>h a n h1. f h a = Some (n, h1) \<longrightarrow> (\<exists>e. h1 = h @ e)"
  shows "map_st f h rs = Some (ns, h') \<Longrightarrow> \<exists>e. h' = h @ e"
proof (induction rs arbitrary: h ns)
  case Nil
  then show ?case by simp
next
  case (Cons a rs)
  then obtain n h1 ms where f: "f h a = Some (n, h1)"
    and rest: "map_st f h1 rs = Some (ms, h')"
    by (auto split: option.splits)
  from f obtain e1 where "h1 = h @ e1"
    using assms by blast
  moreover from rest obtain e2 where "h' = h1 @ e2"
    using Cons.IH by blast
  ultimately have "h' = h @ (e1 @ e2)" by simp
  then show ?case by blast
qed

lemma array_map_st_extends:
  assumes "\<forall>h a n h1. f h a = Some (n, h1) \<longrightarrow> (\<exists>e. h1 = h @ e)"
    and "array_map_st f h r = Some (ns, h')"
  shows "\<exists>e. h' = h @ e"
proof -
  from assms(2) obtain rs h1 where "map_st f h rs = Some (ns, h1)"
    and h': "h' = h1 @ [NodeArray ns]"
    by (auto simp: array_map_st_def split: option.splits)
  then obtain e where "h1 = h @ e"
    using map_st_extends [OF assms(1)] by blast
  with h' have "h' = h @ (e @ [NodeArray ns])" by simp
  then show ?thesis by blast
qed

lemma render_item_st_extends: "render_item_st h a = Some (n, h1) \<Longrightarrow> \<exists>e. h1 = h @ e"
  by (auto simp: render_item_st_def split: option.splits)

lemma render_group_st_extends:
  assumes "render_group_st h a = Some (n, h1)"
  shows "\<exists>e. h1 = h @ e"
proof -
  from assms have "h1 = h \<or> (\<exists>r ns. array_map_st render_item_st h r = Some (ns, h1))"
    by (auto simp: render_group_st_def split: option.splits if_splits)
  then show ?thesis
  proof
    assume "h1 = h"
    then have "h1 = h @ []" by simp
    then show ?thesis by blast
  next
    assume "\<exists>r ns. array_map_st render_item_st h r = Some (ns, h1)"
    moreover have "\<forall>h a n h1. render_item_st h a = Some (n, h1) \<longrightarrow> (\<exists>e. h1 = h @ e)"
      using render_item_st_extends by blast
    ultimately show ?thesis
      using array_map_st_extends by blast
  qed
qed

lemma ServerSearch_st_extends:
  assumes "ServerSearch_st h r opn = Some (t, h')"
  shows "take (length h) h' = h"
proof -
  from assms obtain ns where "array_map_st render_group_st h r = Some (ns, h')"
    by (auto simp: ServerSearch_st_def split: option.splits)
  moreover have "\<forall>h a n h1. render_group_st h a = Some (n, h1) \<longrightarrow> (\<exists>e. h1 = h @ e)"
    using render_group_st_extends by blast
  ultimately obtain e where "h' = h @ e"
    using array_map_st_extends by blast
  then show ?thesis by simp
qed

subsection \<open>Presentation only\<close>

text \<open>
  C7. Rendering leaves the input as it is. When the store holds the input \<open>gs\<close> at
  the address of \<open>props.data\<close>, the render returns the tree of \<open>ServerSearch gs\<close> and a
  store in which every object that was there before is unchanged (the only new
  objects are the arrays \<open>map\<close> made), and the input read back from the new store is
  \<open>gs\<close> again; and from whatever store a render returns, the objects that were there
  are unchanged. No action changes the props either. Every rendered row is a
  \<open>CommandItem\<close> with an empty attribute list, one per item of the input, and no
  callback is registered on a row or inside it; so the selection of any target leaves
  the component as it was.
\<close>

theorem rendering_is_presentational:
  "(groups_at h r = Some gs \<longrightarrow>
      (\<exists>h'. ServerSearch_st h r opn = Some (ServerSearch gs opn, h')
         \<and> take (length h) h' = h \<and> groups_at h' r = Some gs))
   \<and> (ServerSearch_st h r opn = Some (t, h1) \<longrightarrow> take (length h) h1 = h)
   \<and> props_data (step c a) = props_data c
   \<and> map props_of (concat (map rows (rendered_groups (render c)))) =
       replicate (length (concat (map items_of (props_data c)))) []
   \<and> concat (map all_callbacks (concat (map rows (rendered_groups (render c))))) = []
   \<and> step c (Select p) = c"
proof -
  have frame: "groups_at h r = Some gs \<longrightarrow>
      (\<exists>h'. ServerSearch_st h r opn = Some (ServerSearch gs opn, h')
         \<and> take (length h) h' = h \<and> groups_at h' r = Some gs)"
  proof
    assume dec: "groups_at h r = Some gs"
    then obtain e where "ServerSearch_st h r opn = Some (ServerSearch gs opn, h @ e)"
      using ServerSearch_st_decoded by blast
    moreover have "take (length h) (h @ e) = h" by simp
    moreover from dec have "groups_at (h @ e) r = Some gs"
      by (rule groups_at_append)
    ultimately show "\<exists>h'. ServerSearch_st h r opn = Some (ServerSearch gs opn, h')
         \<and> take (length h) h' = h \<and> groups_at h' r = Some gs"
      by blast
  qed
  have grown: "ServerSearch_st h r opn = Some (t, h1) \<longrightarrow> take (length h) h1 = h"
    using ServerSearch_st_extends by blast
  have props: "props_data (step c a) = props_data c"
    by (cases a) (simp_all add: step_Click step_Key step_Select step_Dismiss)
  have rows_eq: "concat (map rows (rendered_groups (render c))) =
      map render_item (concat (map items_of (props_data c)))"
    by (simp add: render_def rendered_groups_ServerSearch rows_of_groups
        items_filter_has_items)
  have attrs: "map props_of (concat (map rows (rendered_groups (render c)))) =
       replicate (length (concat (map items_of (props_data c)))) []"
    unfolding rows_eq by (simp add: comp_def render_item_def map_replicate_const)
  have no_cb: "concat (map all_callbacks (concat (map rows (rendered_groups (render c))))) = []"
    unfolding rows_eq by (simp add: comp_def all_callbacks_render_item)
  from frame grown props attrs no_cb show ?thesis
    using step_Select by blast
qed

theorem rendering_is_presentational_witness:
  "(let h = [ItemCell \<lparr>icon = (), name = ''general'', id' = ''1''\<rparr>,
             RefArray [0],
             GroupCell ''Text Channels'' Channel (Some 1),
             GroupCell ''Members'' Member None,
             RefArray [2, 3]];
        gs = [\<lparr>label = ''Text Channels'', type' = Channel,
                data = Some [\<lparr>icon = (), name = ''general'', id' = ''1''\<rparr>]\<rparr>,
              \<lparr>label = ''Members'', type' = Member, data = None\<rparr>];
        h' = h @ [NodeArray [render_item \<lparr>icon = (), name = ''general'', id' = ''1''\<rparr>],
                  NodeArray (map render_group gs)]
    in groups_at h 4 = Some gs
       \<and> ServerSearch_st h 4 True = Some (ServerSearch gs True, h')
       \<and> take (length h) h' = h
       \<and> groups_at h' 4 = Some gs)"
proof -
  let ?it = "\<lparr>icon = (), name = ''general'', id' = ''1''\<rparr>"
  let ?h = "[ItemCell ?it, RefArray [0], GroupCell ''Text Channels'' Channel (Some 1),
             GroupCell ''Members'' Member None, RefArray [2, 3]]"
  let ?gs = "[\<lparr>label = ''Text Channels'', type' = Channel, data = Some [?it]\<rparr>,
              \<lparr>label = ''Members'', type' = Member, data = None\<rparr>]"
  let ?h' = "?h @ [NodeArray [render_item ?it], NodeArray (map render_group ?gs)]"
  have dec: "groups_at ?h 4 = Some ?gs"
    by (simp add: groups_at_def group_at_def items_at_def read_refs_def read_group_def
        read_item_def lookup_def)
  have run: "ServerSearch_st ?h 4 True = Some (ServerSearch ?gs True, ?h')"
    by (simp add: ServerSearch_st_def array_map_st_def render_group_st_def
        render_item_st_def read_refs_def read_group_def read_item_def lookup_def
        ServerSearch_def dialog_def render_group_def)
  note inst = rendering_is_presentational
    [of ?h 4 ?gs True "ServerSearch ?gs True" ?h' "mount []" "Select []" "[]"]
  from inst run have kept: "take (length ?h) ?h' = ?h"
    by blast
  from inst dec obtain h2 where "ServerSearch_st ?h 4 True = Some (ServerSearch ?gs True, h2)"
    and reread: "groups_at h2 4 = Some ?gs"
    by blast
  with run have "h2 = ?h'" by simp
  with reread have "groups_at ?h' 4 = Some ?gs" by simp
  with dec run kept show ?thesis
    unfolding Let_def by blast
qed

end
